theory Spec2Isabelle
  imports Main
begin

section \<open>Data model\<close>

text \<open>
  The daemon's dog handler (\<^verbatim>\<open>handleDogs\<close>, \<^verbatim>\<open>cleanupStuckDogs\<close>,
  \<^verbatim>\<open>dispatchPlugins\<close>) talks to five collaborators whose packages are not among the
  sources: the dog manager (worker registry), the session manager, the plugin scanner,
  the run recorder and the mail router. The handler itself is embedded from its source;
  the collaborators are embedded from their contracts in the specification, and every one
  of them can fail where the handler's code checks an error.

  Record fields carry a one-letter prefix (\<open>dName\<close> for a dog's \<^verbatim>\<open>Name\<close>, \<open>pName\<close>
  for a plugin's), since several of the source's structs share field names. Timestamps and
  durations are whole seconds.

  Calls to \<^verbatim>\<open>d.logger.Printf\<close> are not embedded: logging changes nothing the
  handler reads back.
\<close>

datatype error =
    StorageError | ConflictError | NotFoundError | StartError
  | AddressError | NilMailboxError | DurationError

datatype dog_state = StateIdle | StateWorking

record dog =
  dName :: string
  dState :: dog_state
  dWork :: string

datatype gate_type = GateCooldown | GateOther string

record gate =
  gType :: gate_type
  gDuration :: string

record plugin =
  pName :: string
  pInstructions :: string
  pGate :: "gate option"

datatype message_type = TypeTask | TypeNotification

record message =
  mID :: string
  mFrom :: string
  mTo :: string
  mSubject :: string
  mBody :: string
  mType :: message_type
  mTimestamp :: int

record mailbox =
  active :: "message list"
  archived :: "message list"

text \<open>
  Of the rigs configuration the handler reads only the keys of its \<^verbatim>\<open>Rigs\<close> map; they
  are kept as a list, in the order in which the handler's iteration meets them.
\<close>

record rigs_config =
  Rigs :: "string list"

text \<open>
  One entry per call the handler makes to a collaborator, in call order. The number of
  entries is the handler's logical clock: what a collaborator answers may depend on it.
\<close>

datatype call =
    CallList
  | CallIsRunning string
  | CallClearWork string
  | CallDiscoverAll "string list"
  | CallCountRunsSince string string
  | CallGetIdleDog
  | CallAssignWork string string
  | CallStart string string
  | CallSend message

record world =
  dogs :: "dog list"
  sessions :: "(string \<times> string) list"
  mailboxes :: "string \<Rightarrow> mailbox"
  runs :: "(string \<times> int) list"
  calls :: "call list"

text \<open>
  What the outside decides: I/O faults of each collaborator, the liveness probe, the
  discovered plugins, the wall clock, fresh message ids and the duration parser. Each is
  a function of the logical clock and of the call's arguments.
\<close>

record env =
  loadRigsConfig :: "nat \<Rightarrow> error + rigs_config option"
  listFault :: "nat \<Rightarrow> error option"
  isRunning :: "nat \<Rightarrow> string \<Rightarrow> error + bool"
  clearFault :: "nat \<Rightarrow> string \<Rightarrow> error option"
  discover :: "nat \<Rightarrow> string list \<Rightarrow> error + plugin list"
  parseDuration :: "string \<Rightarrow> int option"
  countFault :: "nat \<Rightarrow> string \<Rightarrow> error option"
  idleFault :: "nat \<Rightarrow> error option"
  assignFault :: "nat \<Rightarrow> string \<Rightarrow> string \<Rightarrow> error option"
  startFault :: "nat \<Rightarrow> string \<Rightarrow> string \<Rightarrow> error option"
  sendFault :: "nat \<Rightarrow> message \<Rightarrow> error option"
  clock :: "nat \<Rightarrow> int"
  newID :: "nat \<Rightarrow> string"

definition tick :: "world \<Rightarrow> nat" where
  "tick w = length (calls w)"

definition mark :: "call \<Rightarrow> world \<Rightarrow> world" where
  "mark c w = w\<lparr>calls := calls w @ [c]\<rparr>"

section \<open>Collaborators\<close>

subsection \<open>Worker registry (dog manager)\<close>

text \<open>
  The package \<^verbatim>\<open>internal/dog\<close> is not among the sources; its manager is embedded from
  section 4.3 of the specification, with the I/O failures of section 7 (StorageError),
  which leave the registry as it was.
\<close>

text \<open>
  Modelled from the spec: \<^verbatim>\<open>dog.Manager.List\<close> is missing. It returns all known
  workers and fails only on an enumeration I/O error.
\<close>

definition List_dogs :: "env \<Rightarrow> world \<Rightarrow> (error + dog list) \<times> world" where
  "List_dogs E w =
     (case listFault E (tick w) of
        Some e \<Rightarrow> (Inl e, mark CallList w)
      | None \<Rightarrow> (Inr (dogs w), mark CallList w))"

text \<open>
  Modelled from the spec: \<^verbatim>\<open>dog.Manager.GetIdleDog\<close> is missing. It returns the first
  worker, in the registry's stable order, whose state is Idle, or none when there is no
  idle worker; only an I/O fault is an error.
\<close>

definition GetIdleDog :: "env \<Rightarrow> world \<Rightarrow> (error + dog option) \<times> world" where
  "GetIdleDog E w =
     (case idleFault E (tick w) of
        Some e \<Rightarrow> (Inl e, mark CallGetIdleDog w)
      | None \<Rightarrow> (Inr (find (\<lambda>d. dState d = StateIdle) (dogs w)), mark CallGetIdleDog w))"

text \<open>
  Modelled from the spec: the registry's write of a worker's state and description is
  missing. A worker is identified by its name.
\<close>

definition set_work :: "string \<Rightarrow> dog_state \<Rightarrow> string \<Rightarrow> dog list \<Rightarrow> dog list" where
  "set_work name st desc ds =
     map (\<lambda>d. if dName d = name then d\<lparr>dState := st, dWork := desc\<rparr> else d) ds"

text \<open>
  Modelled from the spec: \<^verbatim>\<open>dog.Manager.AssignWork\<close> is missing. It moves the named
  worker from Idle to Working and records the description; it fails with NotFoundError
  when the name is unknown and with ConflictError when the worker is already Working.
\<close>

definition AssignWork :: "env \<Rightarrow> string \<Rightarrow> string \<Rightarrow> world \<Rightarrow> error option \<times> world" where
  "AssignWork E name desc w =
     (let w' = mark (CallAssignWork name desc) w in
      case assignFault E (tick w) name desc of
        Some e \<Rightarrow> (Some e, w')
      | None \<Rightarrow>
          (case find (\<lambda>d. dName d = name) (dogs w) of
             None \<Rightarrow> (Some NotFoundError, w')
           | Some d \<Rightarrow>
               if dState d = StateWorking then (Some ConflictError, w')
               else (None, w'\<lparr>dogs := set_work name StateWorking desc (dogs w)\<rparr>)))"

text \<open>
  Modelled from the spec: \<^verbatim>\<open>dog.Manager.ClearWork\<close> is missing. It moves the worker to
  Idle and clears the description; clearing an idle worker is no error. The handler checks
  its error, so an I/O fault can make it fail.
\<close>

definition ClearWork :: "env \<Rightarrow> string \<Rightarrow> world \<Rightarrow> error option \<times> world" where
  "ClearWork E name w =
     (let w' = mark (CallClearWork name) w in
      case clearFault E (tick w) name of
        Some e \<Rightarrow> (Some e, w')
      | None \<Rightarrow> (None, w'\<lparr>dogs := set_work name StateIdle [] (dogs w)\<rparr>))"

subsection \<open>Session manager\<close>

text \<open>
  Modelled from the spec: \<^verbatim>\<open>dog.SessionManager.Start\<close> is missing. Section 4.4: it
  asks the external session system for a live session for the worker, with the work
  description, and may fail. A started session is kept as the pair of worker name and
  work description.
\<close>

definition Start :: "env \<Rightarrow> string \<Rightarrow> string \<Rightarrow> world \<Rightarrow> error option \<times> world" where
  "Start E name desc w =
     (let w' = mark (CallStart name desc) w in
      case startFault E (tick w) name desc of
        Some e \<Rightarrow> (Some e, w')
      | None \<Rightarrow> (None, w'\<lparr>sessions := sessions w @ [(name, desc)]\<rparr>))"

text \<open>
  Modelled from the spec: \<^verbatim>\<open>dog.SessionManager.IsRunning\<close> is missing. Section 4.4: a
  liveness probe that answers a boolean, or an error when liveness is unknown.
\<close>

definition IsRunning :: "env \<Rightarrow> string \<Rightarrow> world \<Rightarrow> (error + bool) \<times> world" where
  "IsRunning E name w = (isRunning E (tick w) name, mark (CallIsRunning name) w)"

subsection \<open>Plugin scanner and run recorder\<close>

text \<open>
  Modelled from the spec: \<^verbatim>\<open>plugin.Scanner.DiscoverAll\<close> is missing. Section 4.5: it
  returns the work items configured for the rigs, or an error.
\<close>

definition DiscoverAll :: "env \<Rightarrow> string list \<Rightarrow> world \<Rightarrow> (error + plugin list) \<times> world" where
  "DiscoverAll E rigNames w = (discover E (tick w) rigNames, mark (CallDiscoverAll rigNames) w)"

text \<open>
  Modelled from the spec: the recorder's write is missing. Section 6: the run history is
  an append-only record of (work item name, timestamp).
\<close>

definition RecordRun :: "env \<Rightarrow> string \<Rightarrow> world \<Rightarrow> world" where
  "RecordRun E name w = w\<lparr>runs := runs w @ [(name, clock E (tick w))]\<rparr>"

text \<open>
  Modelled from the spec: the run-history query is missing. Section 6: a count of the
  item's runs within a window.
\<close>

definition runs_since :: "(string \<times> int) list \<Rightarrow> string \<Rightarrow> int \<Rightarrow> nat" where
  "runs_since rs name since = length (filter (\<lambda>r. fst r = name \<and> since \<le> snd r) rs)"

text \<open>
  Modelled from the spec: \<^verbatim>\<open>plugin.Recorder.CountRunsSince\<close> is missing. Section 4.5:
  the count of recorded executions of the item within the trailing duration that ends
  now; a duration string that cannot be read is an error, and so is an I/O fault.
\<close>

definition CountRunsSince :: "env \<Rightarrow> string \<Rightarrow> string \<Rightarrow> world \<Rightarrow> (error + nat) \<times> world" where
  "CountRunsSince E name duration w =
     (let w' = mark (CallCountRunsSince name duration) w in
      case parseDuration E duration of
        None \<Rightarrow> (Inl DurationError, w')
      | Some d \<Rightarrow>
          (case countFault E (tick w) name of
             Some e \<Rightarrow> (Inl e, w')
           | None \<Rightarrow> (Inr (runs_since (runs w) name (clock E (tick w) - d)), w')))"

subsection \<open>Mailbox and router\<close>

text \<open>
  Modelled from the spec: \<^verbatim>\<open>mail.Mailbox.Append\<close> is missing. Section 4.1: the message
  joins the active set, which is listed oldest first.
\<close>

definition Append :: "message \<Rightarrow> mailbox \<Rightarrow> mailbox" where
  "Append m mb = mb\<lparr>active := active mb @ [m]\<rparr>"

text \<open>
  Modelled from the spec: the mailbox's archive operation is missing. Section 4.1: it
  moves the message with the id from the active to the archived set and is a no-op when no
  active message has the id.
\<close>

definition ArchiveByID :: "string \<Rightarrow> mailbox \<Rightarrow> mailbox" where
  "ArchiveByID i mb =
     mb\<lparr>active := filter (\<lambda>m. mID m \<noteq> i) (active mb),
        archived := archived mb @ filter (\<lambda>m. mID m = i) (active mb)\<rparr>"

text \<open>
  Modelled from the spec: \<^verbatim>\<open>mail.Router.Send\<close> is missing. Section 4.2: it assigns a
  timestamp if absent (a zero timestamp), fails with AddressError when the recipient is
  empty and otherwise appends to the recipient's mailbox; an I/O fault makes it fail.
\<close>

definition Send :: "env \<Rightarrow> message \<Rightarrow> world \<Rightarrow> error option \<times> world" where
  "Send E msg w =
     (let w' = mark (CallSend msg) w;
          m = (if mTimestamp msg = 0 then msg\<lparr>mTimestamp := clock E (tick w)\<rparr> else msg) in
      case sendFault E (tick w) msg of
        Some e \<Rightarrow> (Some e, w')
      | None \<Rightarrow>
          if mTo msg = [] then (Some AddressError, w')
          else (None, w'\<lparr>mailboxes := (mailboxes w)(mTo msg := Append m (mailboxes w (mTo msg)))\<rparr>))"

section \<open>The dog handler\<close>

subsection \<open>Stuck-dog cleanup\<close>

text \<open>
  The body of the loop of \<^verbatim>\<open>cleanupStuckDogs\<close>, for one dog of the listing: a dog
  that is not working is passed over; a failed probe is logged and the dog passed over; a
  running session is left alone; otherwise ClearWork is called and its error only logged.
\<close>

definition cleanup_dog :: "env \<Rightarrow> dog \<Rightarrow> world \<Rightarrow> world" where
  "cleanup_dog E dg w =
     (if dState dg \<noteq> StateWorking then w
      else
        (case IsRunning E (dName dg) w of
           (Inl e, w1) \<Rightarrow> w1
         | (Inr running, w1) \<Rightarrow>
             if running then w1
             else (case ClearWork E (dName dg) w1 of (r, w2) \<Rightarrow> w2)))"

fun cleanup_loop :: "env \<Rightarrow> dog list \<Rightarrow> world \<Rightarrow> world" where
  "cleanup_loop E [] w = w"
| "cleanup_loop E (dg # dgs) w = cleanup_loop E dgs (cleanup_dog E dg w)"

definition cleanupStuckDogs :: "env \<Rightarrow> world \<Rightarrow> world" where
  "cleanupStuckDogs E w =
     (case List_dogs E w of
        (Inl e, w1) \<Rightarrow> w1
      | (Inr ds, w1) \<Rightarrow> cleanup_loop E ds w1)"

subsection \<open>Plugin dispatch\<close>

datatype flow = Continue | Return

text \<open>
  The cooldown evaluation of \<^verbatim>\<open>dispatchPlugins\<close>: with a non-empty duration the
  recorder is asked; an error of the query and a positive count both skip the plugin
  (\<open>True\<close>); an empty duration asks nothing and lets the plugin through.
\<close>

definition in_cooldown :: "env \<Rightarrow> plugin \<Rightarrow> gate \<Rightarrow> world \<Rightarrow> bool \<times> world" where
  "in_cooldown E p g w =
     (if gDuration g \<noteq> [] then
        (case CountRunsSince E (pName p) (gDuration g) w of
           (Inl e, w1) \<Rightarrow> (True, w1)
         | (Inr count, w1) \<Rightarrow> if count > 0 then (True, w1) else (False, w1))
      else (False, w))"

definition task_message :: "env \<Rightarrow> nat \<Rightarrow> string \<Rightarrow> plugin \<Rightarrow> message" where
  "task_message E t dogName p =
     \<lparr>mID = newID E t, mFrom = ''daemon'', mTo = ''dog/'' @ dogName,
      mSubject = ''Plugin: '' @ pName p, mBody = pInstructions p,
      mType = TypeTask, mTimestamp = clock E t\<rparr>"

text \<open>
  The rest of the loop body, from the idle-dog lookup on: a failed lookup and an empty
  kennel end the whole pass; a failed AssignWork goes on with the next plugin; a failed
  Start clears the assignment again (an error of ClearWork is only logged) and goes on;
  a failed Send is only logged.
\<close>

definition dispatch_to_dog :: "env \<Rightarrow> plugin \<Rightarrow> world \<Rightarrow> flow \<times> world" where
  "dispatch_to_dog E p w =
     (case GetIdleDog E w of
        (Inl e, w1) \<Rightarrow> (Return, w1)
      | (Inr None, w1) \<Rightarrow> (Return, w1)
      | (Inr (Some idleDog), w1) \<Rightarrow>
          (let workDesc = ''plugin:'' @ pName p in
           case AssignWork E (dName idleDog) workDesc w1 of
             (Some e, w2) \<Rightarrow> (Continue, w2)
           | (None, w2) \<Rightarrow>
               (case Start E (dName idleDog) workDesc w2 of
                  (Some e, w3) \<Rightarrow>
                    (case ClearWork E (dName idleDog) w3 of (clearErr, w4) \<Rightarrow> (Continue, w4))
                | (None, w3) \<Rightarrow>
                    (case Send E (task_message E (tick w3) (dName idleDog) p) w3 of
                       (r, w4) \<Rightarrow> (Continue, w4)))))"

definition dispatch_item :: "env \<Rightarrow> plugin \<Rightarrow> world \<Rightarrow> flow \<times> world" where
  "dispatch_item E p w =
     (case pGate p of
        None \<Rightarrow> (Continue, w)
      | Some g \<Rightarrow>
          if gType g \<noteq> GateCooldown then (Continue, w)
          else
            (case in_cooldown E p g w of
               (True, w1) \<Rightarrow> (Continue, w1)
             | (False, w1) \<Rightarrow> dispatch_to_dog E p w1))"

fun dispatch_loop :: "env \<Rightarrow> plugin list \<Rightarrow> world \<Rightarrow> world" where
  "dispatch_loop E [] w = w"
| "dispatch_loop E (p # ps) w =
     (case dispatch_item E p w of
        (Continue, w1) \<Rightarrow> dispatch_loop E ps w1
      | (Return, w1) \<Rightarrow> w1)"

definition dispatchPlugins :: "env \<Rightarrow> rigs_config option \<Rightarrow> world \<Rightarrow> world" where
  "dispatchPlugins E rigsConfig w =
     (let rigNames = (case rigsConfig of None \<Rightarrow> [] | Some c \<Rightarrow> Rigs c) in
      case DiscoverAll E rigNames w of
        (Inl e, w1) \<Rightarrow> w1
      | (Inr plugins, w1) \<Rightarrow>
          if length plugins = 0 then w1 else dispatch_loop E plugins w1)"

definition handleDogs :: "env \<Rightarrow> world \<Rightarrow> world" where
  "handleDogs E w =
     (case loadRigsConfig E (tick w) of
        Inl e \<Rightarrow> w
      | Inr rigsConfig \<Rightarrow> dispatchPlugins E rigsConfig (cleanupStuckDogs E w))"

section \<open>Pending-spawn tracker\<close>

text \<open>
  Of the package \<^verbatim>\<open>internal/polecat\<close> only the tests of the tracker are among the
  sources (\<^verbatim>\<open>pending_test.go\<close>); the tracker itself is embedded from section 4.7 of
  the specification. A mailbox reference is the name under which the store keeps the
  mailbox; the nil pointer is \<open>None\<close>.
\<close>

record pending_spawn =
  psRig :: string
  psPolecat :: string
  psSession :: string
  psIssue :: string
  psSpawnedAt :: int
  psMailID :: string
  psMailbox :: "string option"

text \<open>
  Modelled from the spec: the subject test of the scan is missing. The text after a
  given prefix, if the string starts with it.
\<close>

fun strip_prefix :: "string \<Rightarrow> string \<Rightarrow> string option" where
  "strip_prefix [] s = Some s"
| "strip_prefix (c # cs) [] = None"
| "strip_prefix (c # cs) (x # xs) = (if c = x then strip_prefix cs xs else None)"

text \<open>
  Modelled from the spec: the body of a notification is read line by line; the pieces of a
  string between occurrences of a separator character.
\<close>

fun split_on :: "char \<Rightarrow> string \<Rightarrow> string list" where
  "split_on c [] = [[]]"
| "split_on c (x # xs) =
     (if x = c then [] # split_on c xs
      else (case split_on c xs of [] \<Rightarrow> [[x]] | l # ls \<Rightarrow> (x # l) # ls))"

text \<open>
  Modelled from the spec: the subject's \<^verbatim>\<open><rigName>/<workerName>\<close> part is split at its
  first slash; without a slash there is no result.
\<close>

definition split_slash :: "string \<Rightarrow> (string \<times> string) option" where
  "split_slash s =
     (if CHR ''/'' \<in> set s
      then Some (takeWhile (\<lambda>c. c \<noteq> CHR ''/'') s, tl (dropWhile (\<lambda>c. c \<noteq> CHR ''/'') s))
      else None)"

text \<open>
  Modelled from the spec: a body field is the rest of the first line that starts with
  \<^verbatim>\<open>Key: \<close>.
\<close>

definition field_value :: "string \<Rightarrow> string list \<Rightarrow> string option" where
  "field_value key ls =
     (case List.map_filter (strip_prefix (key @ '': '')) ls of [] \<Rightarrow> None | v # vs \<Rightarrow> Some v)"

text \<open>
  Modelled from the spec: the parse of one message by \<^verbatim>\<open>checkMailboxForSpawns\<close> is
  missing. Section 4.7: the subject must be \<^verbatim>\<open>POLECAT_STARTED <rigName>/<workerName>\<close>,
  the body must have a \<^verbatim>\<open>Session:\<close> and an \<^verbatim>\<open>Issue:\<close> line; any other message
  gives no pending spawn. The spawn time is the message's timestamp.
\<close>

definition parse_spawn :: "string \<Rightarrow> message \<Rightarrow> pending_spawn option" where
  "parse_spawn ref m =
     (case strip_prefix ''POLECAT_STARTED '' (mSubject m) of
        None \<Rightarrow> None
      | Some rest \<Rightarrow>
          (case split_slash rest of
             None \<Rightarrow> None
           | Some (rig, worker) \<Rightarrow>
               (case field_value ''Session'' (split_on (CHR 0x0A) (mBody m)) of
                  None \<Rightarrow> None
                | Some sess \<Rightarrow>
                    (case field_value ''Issue'' (split_on (CHR 0x0A) (mBody m)) of
                       None \<Rightarrow> None
                     | Some iss \<Rightarrow>
                         Some \<lparr>psRig = rig, psPolecat = worker, psSession = sess, psIssue = iss,
                               psSpawnedAt = mTimestamp m, psMailID = mID m,
                               psMailbox = Some ref\<rparr>))))"

text \<open>
  Modelled from the spec: \<^verbatim>\<open>checkMailboxForSpawns\<close> is missing. Section 4.7: one pending
  spawn per active message that parses, in the mailbox's order, each with a reference to
  the mailbox and the id of its message. Its only error is a failure of the mailbox
  listing, given here as \<open>listErr\<close>.
\<close>

definition checkMailboxForSpawns ::
    "error option \<Rightarrow> string \<Rightarrow> (string \<Rightarrow> mailbox) \<Rightarrow> error + pending_spawn list" where
  "checkMailboxForSpawns listErr ref st =
     (case listErr of
        Some e \<Rightarrow> Inl e
      | None \<Rightarrow> Inr (List.map_filter (parse_spawn ref) (active (st ref))))"

text \<open>
  Modelled from the spec: the loop of \<^verbatim>\<open>pruneStalePendingFromList\<close> is missing. Section
  4.7: every entry whose spawn time is before the cutoff is archived through its mailbox
  reference and counted; an entry to archive that has no mailbox is a NilMailboxError.
\<close>

fun prune_loop ::
    "int \<Rightarrow> pending_spawn list \<Rightarrow> nat \<Rightarrow> (string \<Rightarrow> mailbox)
      \<Rightarrow> (error + nat) \<times> (string \<Rightarrow> mailbox)" where
  "prune_loop cutoff [] pruned st = (Inr pruned, st)"
| "prune_loop cutoff (ps # rest) pruned st =
     (if psSpawnedAt ps < cutoff then
        (case psMailbox ps of
           None \<Rightarrow> (Inl NilMailboxError, st)
         | Some ref \<Rightarrow>
             prune_loop cutoff rest (Suc pruned) (st(ref := ArchiveByID (psMailID ps) (st ref))))
      else prune_loop cutoff rest pruned st)"

text \<open>
  Modelled from the spec: \<^verbatim>\<open>pruneStalePendingFromList\<close> is missing. Section 4.7: the
  cutoff is now minus the maximal age; the result is the count pruned.
\<close>

definition pruneStalePendingFromList ::
    "int \<Rightarrow> pending_spawn list \<Rightarrow> int \<Rightarrow> (string \<Rightarrow> mailbox)
      \<Rightarrow> (error + nat) \<times> (string \<Rightarrow> mailbox)" where
  "pruneStalePendingFromList now pending maxAge st = prune_loop (now - maxAge) pending 0 st"

section \<open>Observations\<close>

text \<open>State and description of the registry's workers of a given name.\<close>

definition dog_status :: "string \<Rightarrow> world \<Rightarrow> (dog_state \<times> string) set" where
  "dog_status n w = set (map (\<lambda>d. (dState d, dWork d)) (filter (\<lambda>d. dName d = n) (dogs w)))"

text \<open>The calls made between an earlier world and a later one.\<close>

definition new_calls :: "world \<Rightarrow> world \<Rightarrow> call list" where
  "new_calls w w' = drop (length (calls w)) (calls w')"

text \<open>An entry is stale when it was spawned before the cutoff.\<close>

definition stale :: "int \<Rightarrow> pending_spawn \<Rightarrow> bool" where
  "stale cutoff p = (psSpawnedAt p < cutoff)"

text \<open>The message ids of the stale entries that are backed by a given mailbox.\<close>

definition stale_ids :: "int \<Rightarrow> pending_spawn list \<Rightarrow> string \<Rightarrow> string list" where
  "stale_ids cutoff pending ref =
     map psMailID (filter (\<lambda>p. stale cutoff p \<and> psMailbox p = Some ref) pending)"

section \<open>Scenes\<close>

text \<open>
  Concrete environments and worlds on which the handler and the tracker are run below: a
  calm environment in which no collaborator fails, and variations with one fault each.
\<close>

definition emptybox :: mailbox where
  "emptybox = \<lparr>active = [], archived = []\<rparr>"

definition calm :: env where
  "calm = \<lparr>loadRigsConfig = (\<lambda>t. Inr (Some \<lparr>Rigs = [''gastown'']\<rparr>)),
     listFault = (\<lambda>t. None), isRunning = (\<lambda>t n. Inr True), clearFault = (\<lambda>t n. None),
     discover = (\<lambda>t rs. Inr []),
     parseDuration = (\<lambda>s. if s = ''1h'' then Some 3600 else None),
     countFault = (\<lambda>t n. None), idleFault = (\<lambda>t. None), assignFault = (\<lambda>t n d. None),
     startFault = (\<lambda>t n d. None), sendFault = (\<lambda>t m. None),
     clock = (\<lambda>t. 100000 + int t), newID = (\<lambda>t. ''msg'')\<rparr>"

definition idle_dog :: "string \<Rightarrow> dog" where
  "idle_dog n = \<lparr>dName = n, dState = StateIdle, dWork = []\<rparr>"

definition busy_dog :: "string \<Rightarrow> string \<Rightarrow> dog" where
  "busy_dog n desc = \<lparr>dName = n, dState = StateWorking, dWork = desc\<rparr>"

definition kennel :: "dog list \<Rightarrow> world" where
  "kennel ds = \<lparr>dogs = ds, sessions = [], mailboxes = (\<lambda>n. emptybox), runs = [], calls = []\<rparr>"

definition cooldown :: "string \<Rightarrow> gate option" where
  "cooldown dur = Some \<lparr>gType = GateCooldown, gDuration = dur\<rparr>"

definition plug :: "string \<Rightarrow> gate option \<Rightarrow> plugin" where
  "plug n g = \<lparr>pName = n, pInstructions = ''run '' @ n, pGate = g\<rparr>"

definition town :: "rigs_config option" where
  "town = Some \<lparr>Rigs = [''gastown'']\<rparr>"

definition ungated_env :: env where
  "ungated_env = calm\<lparr>discover := (\<lambda>t rs. Inr [plug ''A'' None])\<rparr>"

definition hourly_env :: env where
  "hourly_env = calm\<lparr>discover := (\<lambda>t rs. Inr [plug ''A'' (cooldown ''1h'')])\<rparr>"

definition malformed_env :: env where
  "malformed_env = calm\<lparr>discover := (\<lambda>t rs. Inr [plug ''A'' (cooldown ''soon'')])\<rparr>"

definition lookup_fault_env :: env where
  "lookup_fault_env =
     calm\<lparr>discover := (\<lambda>t rs. Inr [plug ''A'' (cooldown []), plug ''B'' (cooldown [])]),
          idleFault := (\<lambda>t. if t = 1 then Some StorageError else None)\<rparr>"

definition rollback_env :: env where
  "rollback_env =
     calm\<lparr>discover := (\<lambda>t rs. Inr [plug ''A'' (cooldown []), plug ''B'' (cooldown []),
                                       plug ''C'' (cooldown [])]),
          startFault := (\<lambda>t n d. if d = ''plugin:C'' then None else Some StartError),
          clearFault := (\<lambda>t n. if n = ''alpha'' then Some StorageError else None)\<rparr>"

definition assign_fault_env :: env where
  "assign_fault_env = calm\<lparr>assignFault := (\<lambda>t n d. Some StorageError)\<rparr>"

definition send_fault_env :: env where
  "send_fault_env = calm\<lparr>sendFault := (\<lambda>t m. Some StorageError)\<rparr>"

definition dead_session_env :: env where
  "dead_session_env = calm\<lparr>isRunning := (\<lambda>t n. Inr False)\<rparr>"

definition stuck_clear_env :: env where
  "stuck_clear_env = dead_session_env\<lparr>clearFault := (\<lambda>t n. Some StorageError)\<rparr>"

definition probe_error_env :: env where
  "probe_error_env = calm\<lparr>isRunning := (\<lambda>t n. Inl StorageError)\<rparr>"

definition broken_config_env :: env where
  "broken_config_env = dead_session_env\<lparr>loadRigsConfig := (\<lambda>t. Inl StorageError)\<rparr>"

definition started_mail :: "string \<Rightarrow> string \<Rightarrow> string \<Rightarrow> int \<Rightarrow> message" where
  "started_mail i worker issue t =
     \<lparr>mID = i, mFrom = ''witness'', mTo = ''deacon'',
      mSubject = ''POLECAT_STARTED gastown/'' @ worker,
      mBody = ''Session: gt-gastown-polecat-'' @ worker @ [CHR 0x0A] @ ''Issue: '' @ issue,
      mType = TypeNotification, mTimestamp = t\<rparr>"

definition noslash_mail :: message where
  "noslash_mail =
     \<lparr>mID = ''mail-002'', mFrom = ''witness'', mTo = ''deacon'',
      mSubject = ''POLECAT_STARTED no-slash-here'',
      mBody = ''Session: some-session'' @ [CHR 0x0A] @ ''Issue: gt-abc'',
      mType = TypeNotification, mTimestamp = 940\<rparr>"

definition box_of :: "message list \<Rightarrow> string \<Rightarrow> mailbox" where
  "box_of ms = (\<lambda>r. emptybox)(''inbox'' := \<lparr>active = ms, archived = []\<rparr>)"

definition spawn_of :: "string \<Rightarrow> string \<Rightarrow> string \<Rightarrow> int \<Rightarrow> pending_spawn" where
  "spawn_of i worker issue t =
     \<lparr>psRig = ''gastown'', psPolecat = worker, psSession = ''gt-gastown-polecat-'' @ worker,
      psIssue = issue, psSpawnedAt = t, psMailID = i, psMailbox = Some ''inbox''\<rparr>"

definition orphan_spawn :: pending_spawn where
  "orphan_spawn =
     \<lparr>psRig = [], psPolecat = [], psSession = ''gt-gastown-polecat-Toast'', psIssue = [],
      psSpawnedAt = 400, psMailID = ''mail-001'', psMailbox = None\<rparr>"

section \<open>Auxiliary lemmas\<close>

lemma mark_simps [simp]:
  "dogs (mark c w) = dogs w" "sessions (mark c w) = sessions w"
  "mailboxes (mark c w) = mailboxes w" "runs (mark c w) = runs w"
  "calls (mark c w) = calls w @ [c]"
  by (simp_all add: mark_def)

lemma GetIdleDog_world: "GetIdleDog E w = (r, w') \<Longrightarrow> w' = mark CallGetIdleDog w"
  by (auto simp: GetIdleDog_def split: option.splits)

lemma GetIdleDog_found:
  "GetIdleDog E w = (Inr (Some d), w') \<Longrightarrow> d \<in> set (dogs w) \<and> dState d = StateIdle"
  by (auto simp: GetIdleDog_def find_Some_iff split: option.splits)

lemma AssignWork_failed: "AssignWork E n desc w = (Some e, w') \<Longrightarrow> w' = mark (CallAssignWork n desc) w"
  by (auto simp: AssignWork_def Let_def split: option.splits if_splits)

lemma AssignWork_done:
  "AssignWork E n desc w = (None, w') \<Longrightarrow>
     w' = (mark (CallAssignWork n desc) w)\<lparr>dogs := set_work n StateWorking desc (dogs w)\<rparr>
     \<and> (\<exists>d \<in> set (dogs w). dName d = n)"
  by (auto simp: AssignWork_def Let_def find_Some_iff split: option.splits if_splits)

lemma Start_failed: "Start E n desc w = (Some e, w') \<Longrightarrow> w' = mark (CallStart n desc) w"
  by (auto simp: Start_def Let_def split: option.splits)

lemma Start_done:
  "Start E n desc w = (None, w') \<Longrightarrow>
     w' = (mark (CallStart n desc) w)\<lparr>sessions := sessions w @ [(n, desc)]\<rparr>"
  by (auto simp: Start_def Let_def split: option.splits)

lemma ClearWork_failed: "ClearWork E n w = (Some e, w') \<Longrightarrow> w' = mark (CallClearWork n) w"
  by (auto simp: ClearWork_def Let_def split: option.splits)

lemma ClearWork_done:
  "ClearWork E n w = (None, w') \<Longrightarrow>
     w' = (mark (CallClearWork n) w)\<lparr>dogs := set_work n StateIdle [] (dogs w)\<rparr>"
  by (auto simp: ClearWork_def Let_def split: option.splits)

lemma Send_failed: "Send E m w = (Some e, w') \<Longrightarrow> w' = mark (CallSend m) w"
  by (auto simp: Send_def Let_def split: option.splits if_splits)

lemma CountRunsSince_world:
  "CountRunsSince E n dur w = (r, w') \<Longrightarrow> w' = mark (CallCountRunsSince n dur) w"
  by (auto simp: CountRunsSince_def Let_def split: option.splits)

lemma IsRunning_world: "IsRunning E n w = (r, w') \<Longrightarrow> w' = mark (CallIsRunning n) w"
  by (auto simp: IsRunning_def)

lemma status_set_work:
  "\<exists>d \<in> set ds. dName d = n \<Longrightarrow>
   set (map (\<lambda>d. (dState d, dWork d)) (filter (\<lambda>d. dName d = n) (set_work n st desc ds))) = {(st, desc)}"
  by (induction ds) (auto simp: set_work_def)

lemma set_work_names: "map dName (set_work n st desc ds) = map dName ds"
  by (induction ds) (auto simp: set_work_def)


lemma dog_status_set_work:
  assumes "\<exists>d \<in> set (dogs w). dName d = n" and "dogs w' = set_work n st desc (dogs w)"
  shows "dog_status n w' = {(st, desc)}"
  unfolding dog_status_def assms(2) by (rule status_set_work [OF assms(1)])

lemma in_cooldown_world:
  "in_cooldown E p g w = (b, w') \<Longrightarrow>
     w' = w \<or> w' = mark (CallCountRunsSince (pName p) (gDuration g)) w"
  by (auto simp: in_cooldown_def split: if_splits prod.splits sum.splits
           dest: CountRunsSince_world)

lemma dog_status_other:
  assumes "dogs w' = set_work n' st desc (dogs w)" and "n' \<noteq> n"
  shows "dog_status n w' = dog_status n w"
proof -
  have "filter (\<lambda>d. dName d = n) (set_work n' st desc ds) = filter (\<lambda>d. dName d = n) ds" for ds
    using assms(2) by (induction ds) (auto simp: set_work_def)
  then show ?thesis by (simp add: dog_status_def assms(1))
qed

lemma dog_status_same: "dogs w' = dogs w \<Longrightarrow> dog_status n w' = dog_status n w"
  by (simp add: dog_status_def)

lemma AssignWork_other:
  assumes "AssignWork E n' desc w = (a, w')" and "n' \<noteq> n"
  shows "dog_status n w' = dog_status n w"
proof (cases a)
  case None
  with assms(1) have "dogs w' = set_work n' StateWorking desc (dogs w)"
    by (auto dest: AssignWork_done)
  then show ?thesis using assms(2) by (rule dog_status_other)
next
  case (Some e)
  with assms(1) have "dogs w' = dogs w" by (auto dest: AssignWork_failed)
  then show ?thesis by (rule dog_status_same)
qed

lemma ClearWork_other:
  assumes "ClearWork E n' w = (a, w')" and "n' \<noteq> n"
  shows "dog_status n w' = dog_status n w"
proof (cases a)
  case None
  with assms(1) have "dogs w' = set_work n' StateIdle [] (dogs w)"
    by (auto dest: ClearWork_done)
  then show ?thesis using assms(2) by (rule dog_status_other)
next
  case (Some e)
  with assms(1) have "dogs w' = dogs w" by (auto dest: ClearWork_failed)
  then show ?thesis by (rule dog_status_same)
qed

lemma Start_dogs: "Start E n desc w = (a, w') \<Longrightarrow> dogs w' = dogs w"
  by (cases a) (auto dest: Start_done Start_failed)

lemma Send_dogs: "Send E m w = (a, w') \<Longrightarrow> dogs w' = dogs w"
  by (auto simp: Send_def Let_def split: option.splits if_splits)

lemma idle_dog_is_other:
  assumes "GetIdleDog E w = (Inr (Some d), w')" and "dog_status n w = {(StateWorking, x)}"
  shows "dName d \<noteq> n"
proof
  assume "dName d = n"
  moreover from assms(1) have "d \<in> set (dogs w)" "dState d = StateIdle"
    by (auto dest: GetIdleDog_found)
  ultimately have "(StateIdle, dWork d) \<in> dog_status n w"
    by (force simp: dog_status_def)
  with assms(2) show False by simp
qed

lemma dispatch_to_dog_keeps_working:
  assumes "dog_status n w = {(StateWorking, x)}"
  shows "dog_status n (snd (dispatch_to_dog E p w)) = {(StateWorking, x)}"
proof -
  obtain r w1 where look: "GetIdleDog E w = (r, w1)" by (cases "GetIdleDog E w")
  then have w1: "dog_status n w1 = dog_status n w"
    by (auto dest: GetIdleDog_world simp: dog_status_def)
  show ?thesis
  proof (cases r)
    case (Inl e)
    with look w1 assms show ?thesis by (simp add: dispatch_to_dog_def)
  next
    case (Inr found)
    show ?thesis
    proof (cases found)
      case None
      with Inr look w1 assms show ?thesis by (simp add: dispatch_to_dog_def)
    next
      case (Some d)
      with Inr look assms have other: "dName d \<noteq> n" by (auto dest: idle_dog_is_other)
      obtain a w2 where asg: "AssignWork E (dName d) (''plugin:'' @ pName p) w1 = (a, w2)"
        by (cases "AssignWork E (dName d) (''plugin:'' @ pName p) w1")
      from AssignWork_other [OF asg other] w1 have w2: "dog_status n w2 = dog_status n w" by simp
      obtain b w3 where sta: "Start E (dName d) (''plugin:'' @ pName p) w2 = (b, w3)"
        by (cases "Start E (dName d) (''plugin:'' @ pName p) w2")
      from Start_dogs [OF sta] w2 have w3: "dog_status n w3 = dog_status n w"
        by (simp add: dog_status_def)
      obtain c w4 where clr: "ClearWork E (dName d) w3 = (c, w4)"
        by (cases "ClearWork E (dName d) w3")
      from ClearWork_other [OF clr other] w3 have w4: "dog_status n w4 = dog_status n w" by simp
      obtain c' w4' where snd: "Send E (task_message E (tick w3) (dName d) p) w3 = (c', w4')"
        by (cases "Send E (task_message E (tick w3) (dName d) p) w3")
      from Send_dogs [OF snd] w3 have w4': "dog_status n w4' = dog_status n w"
        by (simp add: dog_status_def)
      from Inr Some look asg sta clr snd w2 w4 w4' assms show ?thesis
        by (cases a; cases b) (simp_all add: dispatch_to_dog_def)
    qed
  qed
qed

lemma dispatch_item_keeps_working:
  assumes "dog_status n w = {(StateWorking, x)}"
  shows "dog_status n (snd (dispatch_item E p w)) = {(StateWorking, x)}"
proof (cases "pGate p")
  case None
  with assms show ?thesis by (simp add: dispatch_item_def)
next
  case (Some g)
  obtain b w1 where gate: "in_cooldown E p g w = (b, w1)" by (cases "in_cooldown E p g w")
  then have "dog_status n w1 = dog_status n w"
    by (auto dest!: in_cooldown_world simp: dog_status_def)
  with assms have w1: "dog_status n w1 = {(StateWorking, x)}" by simp
  from Some gate assms w1 dispatch_to_dog_keeps_working [OF w1, of E p] show ?thesis
    by (cases b) (simp_all add: dispatch_item_def)
qed

lemma dispatch_loop_keeps_working:
  "dog_status n w = {(StateWorking, x)} \<Longrightarrow>
     dog_status n (dispatch_loop E ps w) = {(StateWorking, x)}"
proof (induction ps arbitrary: w)
  case Nil
  then show ?case by simp
next
  case (Cons p ps)
  obtain f w1 where step: "dispatch_item E p w = (f, w1)" by (cases "dispatch_item E p w")
  with dispatch_item_keeps_working [OF Cons.prems, of E p]
  have w1: "dog_status n w1 = {(StateWorking, x)}" by simp
  from step w1 Cons.IH [OF w1] show ?case by (cases f) simp_all
qed

lemma GetIdleDog_runs: "runs (snd (GetIdleDog E w)) = runs w"
  by (simp add: GetIdleDog_def split: option.splits)

lemma AssignWork_runs: "runs (snd (AssignWork E n desc w)) = runs w"
  by (simp add: AssignWork_def Let_def split: option.splits)

lemma Start_runs: "runs (snd (Start E n desc w)) = runs w"
  by (simp add: Start_def Let_def split: option.splits)

lemma ClearWork_runs: "runs (snd (ClearWork E n w)) = runs w"
  by (simp add: ClearWork_def Let_def split: option.splits)

lemma Send_runs: "runs (snd (Send E m w)) = runs w"
  by (simp add: Send_def Let_def split: option.splits)

lemma CountRunsSince_runs: "runs (snd (CountRunsSince E n dur w)) = runs w"
  by (simp add: CountRunsSince_def Let_def split: option.splits)

lemma in_cooldown_runs: "runs (snd (in_cooldown E p g w)) = runs w"
  by (simp add: in_cooldown_def prod.case_eq_if sum.case_eq_if CountRunsSince_runs)

lemma dispatch_to_dog_runs: "runs (snd (dispatch_to_dog E p w)) = runs w"
  by (simp add: dispatch_to_dog_def Let_def prod.case_eq_if sum.case_eq_if option.case_eq_if
        GetIdleDog_runs AssignWork_runs Start_runs ClearWork_runs Send_runs)

lemma dispatch_item_runs: "runs (snd (dispatch_item E p w)) = runs w"
  by (simp add: dispatch_item_def prod.case_eq_if bool.case_eq_if
        in_cooldown_runs dispatch_to_dog_runs split: option.splits)

lemma dispatch_loop_runs: "runs (dispatch_loop E ps w) = runs w"
proof (induction ps arbitrary: w)
  case Nil
  show ?case by simp
next
  case (Cons p ps)
  obtain f w1 where step: "dispatch_item E p w = (f, w1)" by (cases "dispatch_item E p w")
  then have "runs w1 = runs w" using dispatch_item_runs [of E p w] by simp
  with step Cons.IH [of w1] show ?case by (cases f) simp_all
qed

lemma cleanup_dog_calls:
  "\<exists>xs. calls (cleanup_dog E dg w) = calls w @ xs
      \<and> count_list xs (CallClearWork n) \<le> (if n = dName dg then 1 else 0)"
  by (auto simp: cleanup_dog_def IsRunning_def ClearWork_def Let_def
           split: sum.splits option.splits)

lemma cleanup_loop_calls:
  "distinct (map dName dgs) \<Longrightarrow>
   \<exists>xs. calls (cleanup_loop E dgs w) = calls w @ xs
      \<and> count_list xs (CallClearWork n) \<le> (if n \<in> dName ` set dgs then 1 else 0)"
proof (induction dgs arbitrary: w)
  case Nil
  show ?case by simp
next
  case (Cons dg dgs)
  obtain xs where xs: "calls (cleanup_dog E dg w) = calls w @ xs"
      "count_list xs (CallClearWork n) \<le> (if n = dName dg then 1 else 0)"
    using cleanup_dog_calls by blast
  from Cons.prems have "distinct (map dName dgs)" by simp
  from Cons.IH [OF this, of "cleanup_dog E dg w"]
  obtain ys where ys: "calls (cleanup_loop E dgs (cleanup_dog E dg w)) = calls (cleanup_dog E dg w) @ ys"
      "count_list ys (CallClearWork n) \<le> (if n \<in> dName ` set dgs then 1 else 0)"
    by blast
  have "calls (cleanup_loop E (dg # dgs) w) = calls w @ (xs @ ys)"
    by (simp add: xs ys)
  moreover have "count_list (xs @ ys) (CallClearWork n) \<le> (if n \<in> dName ` set (dg # dgs) then 1 else 0)"
    using xs(2) ys(2) Cons.prems by (auto split: if_splits)
  ultimately show ?case by blast
qed

lemma strip_prefix_Some: "strip_prefix p s = Some r \<Longrightarrow> s = p @ r"
  by (induction p s rule: strip_prefix.induct) (auto split: if_splits)

lemma unmatched_subject_no_spawn:
  assumes "strip_prefix ''POLECAT_STARTED '' (mSubject m) = None \<or> CHR ''/'' \<notin> set (mSubject m)"
  shows "parse_spawn ref m = None"
proof (cases "strip_prefix ''POLECAT_STARTED '' (mSubject m)")
  case None
  then show ?thesis by (simp add: parse_spawn_def)
next
  case (Some rest)
  with assms have "CHR ''/'' \<notin> set (mSubject m)" by simp
  moreover from Some have "mSubject m = ''POLECAT_STARTED '' @ rest" by (rule strip_prefix_Some)
  ultimately have "CHR ''/'' \<notin> set rest" by simp
  with Some show ?thesis by (simp add: parse_spawn_def split_slash_def)
qed

lemma map_filter_drop:
  "f m = None \<Longrightarrow> List.map_filter f (xs @ m # ys) = List.map_filter f (xs @ ys)"
  by (simp add: List.map_filter_def)

lemma ArchiveByID_active: "active (ArchiveByID i mb) = filter (\<lambda>m. mID m \<noteq> i) (active mb)"
  by (simp add: ArchiveByID_def)

lemma ArchiveByID_archived:
  "archived (ArchiveByID i mb) = archived mb @ filter (\<lambda>m. mID m = i) (active mb)"
  by (simp add: ArchiveByID_def)

lemma prune_loop_nil:
  "\<exists>p \<in> set pending. stale cutoff p \<and> psMailbox p = None \<Longrightarrow>
     fst (prune_loop cutoff pending n st) = Inl NilMailboxError"
  by (induction pending arbitrary: n st) (auto simp: stale_def split: option.splits)

lemma prune_loop_count:
  "\<forall>p \<in> set pending. stale cutoff p \<longrightarrow> psMailbox p \<noteq> None \<Longrightarrow>
     fst (prune_loop cutoff pending n st) = Inr (n + length (filter (stale cutoff) pending))"
  by (induction pending arbitrary: n st) (auto simp: stale_def split: option.splits)

lemma stale_ids_Cons:
  "stale_ids cutoff (p # rest) ref =
     (if stale cutoff p \<and> psMailbox p = Some ref then psMailID p # stale_ids cutoff rest ref
      else stale_ids cutoff rest ref)"
  by (simp add: stale_ids_def)

lemma prune_loop_fresh:
  "\<not> stale cutoff p \<Longrightarrow> prune_loop cutoff (p # rest) n st = prune_loop cutoff rest n st"
  by (simp add: stale_def)

lemma prune_loop_stale:
  "stale cutoff p \<Longrightarrow> psMailbox p = Some r \<Longrightarrow>
     prune_loop cutoff (p # rest) n st
       = prune_loop cutoff rest (Suc n) (st(r := ArchiveByID (psMailID p) (st r)))"
  by (simp add: stale_def)

lemma prune_loop_active:
  "\<forall>p \<in> set pending. stale cutoff p \<longrightarrow> psMailbox p \<noteq> None \<Longrightarrow>
     active (snd (prune_loop cutoff pending n st) ref)
       = filter (\<lambda>m. mID m \<notin> set (stale_ids cutoff pending ref)) (active (st ref))"
proof (induction pending arbitrary: n st)
  case Nil
  show ?case by (simp add: stale_ids_def)
next
  case (Cons p rest)
  from Cons.prems have rest: "\<forall>q \<in> set rest. stale cutoff q \<longrightarrow> psMailbox q \<noteq> None" by simp
  note ih = Cons.IH [OF rest]
  show ?case
  proof (cases "stale cutoff p")
    case False
    then show ?thesis by (simp only: prune_loop_fresh stale_ids_Cons ih if_False simp_thms)
  next
    case True
    with Cons.prems obtain r where r: "psMailbox p = Some r" by auto
    show ?thesis
    proof (cases "ref = r")
      case same: True
      have "filter (\<lambda>m. mID m \<notin> set (stale_ids cutoff rest r))
              (filter (\<lambda>m. mID m \<noteq> psMailID p) (active (st r)))
            = filter (\<lambda>m. mID m \<notin> set (psMailID p # stale_ids cutoff rest r)) (active (st r))"
        by (auto intro: filter_cong)
      with True r same show ?thesis
        by (simp only: prune_loop_stale [OF True r] stale_ids_Cons ih [unfolded same]
              fun_upd_same ArchiveByID_active if_True simp_thms)
    next
      case other: False
      with True r show ?thesis
        by (simp only: prune_loop_stale [OF True r] stale_ids_Cons ih fun_upd_other
              option.inject if_False simp_thms) simp
    qed
  qed
qed

lemma prune_loop_archived:
  "\<forall>p \<in> set pending. stale cutoff p \<longrightarrow> psMailbox p \<noteq> None \<Longrightarrow>
     set (archived (snd (prune_loop cutoff pending n st) ref))
       = set (archived (st ref))
         \<union> {m \<in> set (active (st ref)). mID m \<in> set (stale_ids cutoff pending ref)}"
proof (induction pending arbitrary: n st)
  case Nil
  show ?case by (simp add: stale_ids_def)
next
  case (Cons p rest)
  from Cons.prems have rest: "\<forall>q \<in> set rest. stale cutoff q \<longrightarrow> psMailbox q \<noteq> None" by simp
  note ih = Cons.IH [OF rest]
  show ?case
  proof (cases "stale cutoff p")
    case False
    then show ?thesis by (simp only: prune_loop_fresh stale_ids_Cons ih if_False simp_thms)
  next
    case True
    with Cons.prems obtain r where r: "psMailbox p = Some r" by auto
    show ?thesis
    proof (cases "ref = r")
      case same: True
      have "set (archived (ArchiveByID (psMailID p) (st r)))
              \<union> {m \<in> set (active (ArchiveByID (psMailID p) (st r))).
                   mID m \<in> set (stale_ids cutoff rest r)}
            = set (archived (st r))
              \<union> {m \<in> set (active (st r)). mID m \<in> set (psMailID p # stale_ids cutoff rest r)}"
        by (auto simp: ArchiveByID_active ArchiveByID_archived)
      with True r same show ?thesis
        by (simp only: prune_loop_stale [OF True r] stale_ids_Cons ih [unfolded same]
              fun_upd_same if_True simp_thms)
    next
      case other: False
      with True r show ?thesis
        by (simp only: prune_loop_stale [OF True r] stale_ids_Cons ih fun_upd_other
              option.inject if_False simp_thms) simp
    qed
  qed
qed

lemma parse_spawn_Some:
  "parse_spawn ref m = Some p \<Longrightarrow>
     psMailID p = mID m \<and> psMailbox p = Some ref \<and> psSpawnedAt p = mTimestamp m"
  by (auto simp: parse_spawn_def split: option.splits prod.splits)

lemma map_filter_Cons:
  "List.map_filter f (x # xs) =
     (case f x of None \<Rightarrow> List.map_filter f xs | Some y \<Rightarrow> y # List.map_filter f xs)"
  by (simp add: List.map_filter_def split: option.splits)

lemma map_filter_filter:
  "(\<And>x y. x \<in> set xs \<Longrightarrow> f x = Some y \<Longrightarrow> P x = Q y) \<Longrightarrow>
     List.map_filter f (filter P xs) = filter Q (List.map_filter f xs)"
proof (induction xs)
  case Nil
  show ?case by (simp add: List.map_filter_def)
next
  case (Cons x xs)
  have ih: "List.map_filter f (filter P xs) = filter Q (List.map_filter f xs)"
    by (rule Cons.IH) (rule Cons.prems, simp_all)
  show ?case
  proof (cases "f x")
    case None
    then show ?thesis by (simp add: map_filter_Cons ih)
  next
    case (Some y)
    with Cons.prems [of x y] have "P x = Q y" by simp
    with Some show ?thesis by (simp add: map_filter_Cons ih)
  qed
qed

lemma scan_entries:
  assumes "p \<in> set (List.map_filter (parse_spawn ref) ms)"
  shows "\<exists>m \<in> set ms. parse_spawn ref m = Some p"
  using assms by (auto simp: List.map_filter_def)

lemma rescan_after_prune:
  assumes scan: "checkMailboxForSpawns None ref st = Inr pending"
      and ids: "distinct (map mID (active (st ref)))"
  shows "checkMailboxForSpawns None ref (snd (prune_loop cutoff pending n st))
           = Inr (filter (\<lambda>p. \<not> stale cutoff p) pending)"
proof -
  from scan have pending: "pending = List.map_filter (parse_spawn ref) (active (st ref))"
    by (simp add: checkMailboxForSpawns_def)
  have backed: "\<forall>p \<in> set pending. stale cutoff p \<longrightarrow> psMailbox p \<noteq> None"
    unfolding pending by (auto dest!: scan_entries parse_spawn_Some)
  have kept: "(mID x \<notin> set (stale_ids cutoff pending ref)) = (\<not> stale cutoff y)"
    if x: "x \<in> set (active (st ref))" and y: "parse_spawn ref x = Some y" for x y
  proof
    assume fresh: "mID x \<notin> set (stale_ids cutoff pending ref)"
    show "\<not> stale cutoff y"
    proof
      assume "stale cutoff y"
      moreover from x y have "y \<in> set pending"
        unfolding pending by (auto simp: List.map_filter_def intro!: image_eqI [where x = x])
      moreover from y have "psMailbox y = Some ref" "psMailID y = mID x"
        by (auto dest: parse_spawn_Some)
      ultimately have "mID x \<in> set (stale_ids cutoff pending ref)"
        by (force simp: stale_ids_def)
      with fresh show False by simp
    qed
  next
    assume young: "\<not> stale cutoff y"
    show "mID x \<notin> set (stale_ids cutoff pending ref)"
    proof
      assume "mID x \<in> set (stale_ids cutoff pending ref)"
      then obtain q where q: "q \<in> set pending" "stale cutoff q" "psMailID q = mID x"
        by (auto simp: stale_ids_def)
      from q(1) obtain x' where x': "x' \<in> set (active (st ref))" "parse_spawn ref x' = Some q"
        unfolding pending by (auto dest: scan_entries)
      then have "mID x' = mID x" using q(3) by (auto dest: parse_spawn_Some)
      with ids x x'(1) have "x' = x" by (meson distinct_map inj_onD)
      with x'(2) y have "q = y" by simp
      with q(2) young show False by simp
    qed
  qed
  have "active (snd (prune_loop cutoff pending n st) ref)
          = filter (\<lambda>m. mID m \<notin> set (stale_ids cutoff pending ref)) (active (st ref))"
    by (rule prune_loop_active [OF backed])
  then have "List.map_filter (parse_spawn ref) (active (snd (prune_loop cutoff pending n st) ref))
          = filter (\<lambda>p. \<not> stale cutoff p) (List.map_filter (parse_spawn ref) (active (st ref)))"
    using kept by (simp add: map_filter_filter)
  then show ?thesis by (simp add: checkMailboxForSpawns_def pending)
qed

lemmas handler_defs =
  tick_def mark_def List_dogs_def GetIdleDog_def set_work_def AssignWork_def ClearWork_def
  Start_def IsRunning_def DiscoverAll_def runs_since_def CountRunsSince_def Append_def Send_def
  cleanup_dog_def cleanupStuckDogs_def in_cooldown_def task_message_def dispatch_to_dog_def
  dispatch_item_def dispatchPlugins_def handleDogs_def Let_def

lemmas scene_defs =
  emptybox_def calm_def idle_dog_def busy_dog_def kennel_def cooldown_def plug_def town_def

section \<open>Claims about the dispatch pass\<close>

text \<open>
  C1 (as amended): a discovered work item whose gate is absent, or whose gate is not of
  cooldown type, is skipped by the dispatch pass: the loop body leaves the world as it is
  (no idle worker requested, nothing assigned, no session started) and the pass goes on
  with the next item. Only items with a cooldown gate are candidates for dispatch.
\<close>

theorem ungated_plugin_is_skipped:
  assumes "pGate p = None \<or> (\<exists>g. pGate p = Some g \<and> gType g \<noteq> GateCooldown)"
  shows "dispatch_item E p w = (Continue, w)
       \<and> dispatch_loop E (p # ps) w = dispatch_loop E ps w"
  using assms by (auto simp: dispatch_item_def)

text \<open>
  The theorem at a plugin without a gate, in a kennel with an idle dog.
\<close>

theorem ungated_plugin_is_skipped_witness:
  "pGate (plug ''A'' None) = None
   \<and> dispatch_item calm (plug ''A'' None) (kennel [idle_dog ''alpha'']) = (Continue, kennel [idle_dog ''alpha''])
   \<and> dispatch_loop calm [plug ''A'' None, plug ''B'' None] (kennel [idle_dog ''alpha''])
       = dispatch_loop calm [plug ''B'' None] (kennel [idle_dog ''alpha''])"
  using ungated_plugin_is_skipped [of "plug ''A'' None" calm "kennel [idle_dog ''alpha'']" "[plug ''B'' None]"]
  by (simp add: plug_def)

text \<open>
  C1 as stated fails: with one idle dog, no fault anywhere and one discovered plugin
  that has no gate, the dispatch pass calls the scanner and nothing else; the dog stays
  idle and no session is started.
\<close>

theorem ungated_plugin_not_dispatched:
  "pGate (plug ''A'' None) = None
   \<and> dogs (kennel [idle_dog ''alpha'']) = [idle_dog ''alpha'']
   \<and> calls (dispatchPlugins ungated_env town (kennel [idle_dog ''alpha''])) = [CallDiscoverAll [''gastown'']]
   \<and> dogs (dispatchPlugins ungated_env town (kennel [idle_dog ''alpha''])) = [idle_dog ''alpha'']
   \<and> sessions (dispatchPlugins ungated_env town (kennel [idle_dog ''alpha''])) = []"
  by (simp add: handler_defs scene_defs ungated_env_def)

text \<open>
  C2 (as amended): the dispatch pass records no run. Whatever the plugins, the answers
  of the collaborators and the outcome of Send, the run history after the pass is the run
  history before it; the pass only reads it, through CountRunsSince.
\<close>

theorem dispatch_records_no_run: "runs (dispatchPlugins E rigsConfig w) = runs w"
  by (simp add: dispatchPlugins_def DiscoverAll_def dispatch_loop_runs Let_def split: sum.splits)

text \<open>
  The theorem on the pass that dispatches the hourly plugin to the idle dog.
\<close>

theorem dispatch_records_no_run_witness:
  "runs (dispatchPlugins hourly_env town (kennel [idle_dog ''alpha''])) = []"
  using dispatch_records_no_run [of hourly_env town "kennel [idle_dog ''alpha'']"]
  by (simp add: kennel_def)

text \<open>
  C2 as stated fails: the hourly plugin gets its session started and its task mail
  delivered, and the run history is still empty after the pass.
\<close>

theorem dispatched_plugin_records_no_run:
  "sessions (dispatchPlugins hourly_env town (kennel [idle_dog ''alpha''])) = [(''alpha'', ''plugin:A'')]
   \<and> map mSubject (active (mailboxes (dispatchPlugins hourly_env town (kennel [idle_dog ''alpha''])) ''dog/alpha''))
       = [''Plugin: A'']
   \<and> runs (dispatchPlugins hourly_env town (kennel [idle_dog ''alpha''])) = []"
  by (simp add: handler_defs scene_defs hourly_env_def)

text \<open>
  C3 (as amended): for a work item with a cooldown gate whose non-empty duration string
  cannot be read, the run-count query fails and the item is skipped in this cycle: the
  only call made for it is the query, and the pass goes on with the next item. The same
  holds for any other failure of the query. A cooldown gate with an empty duration is not
  queried at all and the item goes on to the idle-dog lookup.
\<close>

theorem failed_count_skips_item:
  assumes "pGate p = Some g" and "gType g = GateCooldown"
  shows "(gDuration g \<noteq> [] \<and> parseDuration E (gDuration g) = None \<longrightarrow>
            fst (CountRunsSince E (pName p) (gDuration g) w) = Inl DurationError
          \<and> dispatch_item E p w = (Continue, mark (CallCountRunsSince (pName p) (gDuration g)) w)
          \<and> dispatch_loop E (p # ps) w
              = dispatch_loop E ps (mark (CallCountRunsSince (pName p) (gDuration g)) w))
       \<and> (gDuration g \<noteq> [] \<and> CountRunsSince E (pName p) (gDuration g) w = (Inl e, w1) \<longrightarrow>
            dispatch_item E p w = (Continue, w1)
          \<and> w1 = mark (CallCountRunsSince (pName p) (gDuration g)) w
          \<and> dispatch_loop E (p # ps) w = dispatch_loop E ps w1)
       \<and> (gDuration g = [] \<longrightarrow> dispatch_item E p w = dispatch_to_dog E p w)"
  using assms
  by (auto simp: dispatch_item_def in_cooldown_def CountRunsSince_def Let_def
           split: option.splits)

text \<open>
  The theorem at a plugin whose cooldown is the unreadable string \<^verbatim>\<open>soon\<close>, and at one
  with an empty duration.
\<close>

theorem failed_count_skips_item_witness:
  "parseDuration calm ''soon'' = None
   \<and> dispatch_loop calm [plug ''A'' (cooldown ''soon''), plug ''B'' None] (kennel [idle_dog ''alpha''])
       = mark (CallCountRunsSince ''A'' ''soon'') (kennel [idle_dog ''alpha''])
   \<and> dispatch_item calm (plug ''B'' (cooldown [])) (kennel [idle_dog ''alpha''])
       = dispatch_to_dog calm (plug ''B'' (cooldown [])) (kennel [idle_dog ''alpha''])"
  using failed_count_skips_item [of "plug ''A'' (cooldown ''soon'')"
          "\<lparr>gType = GateCooldown, gDuration = ''soon''\<rparr>" calm "kennel [idle_dog ''alpha'']"
          "[plug ''B'' None]"]
        failed_count_skips_item [of "plug ''B'' (cooldown [])"
          "\<lparr>gType = GateCooldown, gDuration = []\<rparr>" calm "kennel [idle_dog ''alpha'']" "[]"]
  by (simp add: plug_def cooldown_def calm_def dispatch_item_def)

text \<open>
  C3 as stated fails: the plugin with the unreadable cooldown is not dispatched, although
  a dog is idle and nothing else fails; after the failed query no idle dog is requested.
\<close>

theorem malformed_duration_blocks_dispatch:
  "parseDuration malformed_env ''soon'' = None
   \<and> fst (CountRunsSince malformed_env ''A'' ''soon'' (kennel [idle_dog ''alpha''])) = Inl DurationError
   \<and> calls (dispatchPlugins malformed_env town (kennel [idle_dog ''alpha'']))
       = [CallDiscoverAll [''gastown''], CallCountRunsSince ''A'' ''soon'']
   \<and> dogs (dispatchPlugins malformed_env town (kennel [idle_dog ''alpha''])) = [idle_dog ''alpha'']
   \<and> sessions (dispatchPlugins malformed_env town (kennel [idle_dog ''alpha''])) = []"
  by (simp add: handler_defs scene_defs malformed_env_def)

text \<open>
  C4 (as amended): for a work item that passed its cooldown gate, a failed AssignWork
  does not end the pass: the remaining items are processed from the world that the failed
  call left. A failed idle-worker lookup ends the pass: the result of the pass is the
  world right after the lookup, and no later item is considered.
\<close>

theorem only_idle_lookup_ends_pass:
  assumes "pGate p = Some g" and "gType g = GateCooldown"
      and "in_cooldown E p g w = (False, w1)"
  shows "(GetIdleDog E w1 = (Inr (Some d), w2)
            \<and> AssignWork E (dName d) (''plugin:'' @ pName p) w2 = (Some e, w3) \<longrightarrow>
            dispatch_loop E (p # ps) w = dispatch_loop E ps w3)
       \<and> (GetIdleDog E w1 = (Inl e, w2) \<longrightarrow> dispatch_loop E (p # ps) w = w2)"
  using assms by (simp add: dispatch_item_def dispatch_to_dog_def)

text \<open>
  The theorem where AssignWork fails on the first of two plugins, and where the lookup
  fails.
\<close>

theorem only_idle_lookup_ends_pass_witness:
  "dispatch_loop assign_fault_env [plug ''A'' (cooldown []), plug ''B'' None] (kennel [idle_dog ''alpha''])
     = dispatch_loop assign_fault_env [plug ''B'' None]
         (mark (CallAssignWork ''alpha'' ''plugin:A'') (mark CallGetIdleDog (kennel [idle_dog ''alpha''])))
   \<and> dispatch_loop lookup_fault_env [plug ''A'' (cooldown []), plug ''B'' (cooldown [])]
         (mark (CallDiscoverAll [''gastown'']) (kennel [idle_dog ''alpha'']))
     = mark CallGetIdleDog (mark (CallDiscoverAll [''gastown'']) (kennel [idle_dog ''alpha'']))"
  using only_idle_lookup_ends_pass [of "plug ''A'' (cooldown [])"
          "\<lparr>gType = GateCooldown, gDuration = []\<rparr>" assign_fault_env
          "kennel [idle_dog ''alpha'']" "kennel [idle_dog ''alpha'']" "idle_dog ''alpha''"
          "mark CallGetIdleDog (kennel [idle_dog ''alpha''])" StorageError
          "mark (CallAssignWork ''alpha'' ''plugin:A'') (mark CallGetIdleDog (kennel [idle_dog ''alpha'']))"
          "[plug ''B'' None]"]
        only_idle_lookup_ends_pass [of "plug ''A'' (cooldown [])"
          "\<lparr>gType = GateCooldown, gDuration = []\<rparr>" lookup_fault_env
          "mark (CallDiscoverAll [''gastown'']) (kennel [idle_dog ''alpha''])"
          "mark (CallDiscoverAll [''gastown'']) (kennel [idle_dog ''alpha''])" "idle_dog ''alpha''"
          "mark CallGetIdleDog (mark (CallDiscoverAll [''gastown'']) (kennel [idle_dog ''alpha'']))"
          StorageError
          "mark CallGetIdleDog (mark (CallDiscoverAll [''gastown'']) (kennel [idle_dog ''alpha'']))"
          "[plug ''B'' (cooldown [])]"]
  by (simp add: scene_defs assign_fault_env_def lookup_fault_env_def in_cooldown_def
        GetIdleDog_def AssignWork_def tick_def mark_def Let_def)

text \<open>
  C4 as stated fails: the idle-dog lookup fails for the first of two plugins and the pass
  ends there; the second plugin is never considered, although a lookup at the next clock
  value would not have failed and the dog is idle.
\<close>

theorem failed_lookup_aborts_pass:
  "calls (dispatchPlugins lookup_fault_env town (kennel [idle_dog ''alpha'']))
       = [CallDiscoverAll [''gastown''], CallGetIdleDog]
   \<and> dogs (dispatchPlugins lookup_fault_env town (kennel [idle_dog ''alpha''])) = [idle_dog ''alpha'']
   \<and> idleFault lookup_fault_env 2 = None"
  by (simp add: handler_defs scene_defs lookup_fault_env_def)

text \<open>
  C5 (as amended): when AssignWork succeeded on a worker and the Start that follows
  fails, ClearWork is called on that worker right after the failed Start and the pass goes
  on with the next item, whatever ClearWork answers. If that ClearWork succeeds, the
  worker is Idle with no work description when the next item is considered (a later item
  of the same cycle may claim it again); if it fails, the registry is left as AssignWork
  made it and the worker is still Working, with the work description of the failed item,
  at the end of the pass.
\<close>

theorem start_failure_rolls_back:
  assumes "pGate p = Some g" and "gType g = GateCooldown"
      and "in_cooldown E p g w = (False, w1)"
      and "GetIdleDog E w1 = (Inr (Some d), w2)"
      and "AssignWork E (dName d) (''plugin:'' @ pName p) w2 = (None, w3)"
      and "Start E (dName d) (''plugin:'' @ pName p) w3 = (Some e, w4)"
      and "ClearWork E (dName d) w4 = (r, w5)"
  shows "dispatch_loop E (p # ps) w = dispatch_loop E ps w5
       \<and> calls w5 = calls w3 @ [CallStart (dName d) (''plugin:'' @ pName p), CallClearWork (dName d)]
       \<and> (r = None \<longrightarrow> dog_status (dName d) w5 = {(StateIdle, [])})
       \<and> (r \<noteq> None \<longrightarrow>
            dogs w5 = dogs w3
          \<and> dog_status (dName d) (dispatch_loop E (p # ps) w)
              = {(StateWorking, ''plugin:'' @ pName p)})"
proof -
  have loop: "dispatch_loop E (p # ps) w = dispatch_loop E ps w5"
    using assms by (simp add: dispatch_item_def dispatch_to_dog_def)
  have w4: "w4 = mark (CallStart (dName d) (''plugin:'' @ pName p)) w3"
    using assms(6) by (rule Start_failed)
  have known: "\<exists>x \<in> set (dogs w3). dName x = dName d"
  proof -
    from AssignWork_done [OF assms(5)] obtain x where "x \<in> set (dogs w2)" "dName x = dName d"
      and "dogs w3 = set_work (dName d) StateWorking (''plugin:'' @ pName p) (dogs w2)"
      by auto
    then have "dName d \<in> set (map dName (dogs w3))"
      by (metis imageI set_map set_work_names)
    then show ?thesis by auto
  qed
  have trace: "calls w5 = calls w3 @ [CallStart (dName d) (''plugin:'' @ pName p), CallClearWork (dName d)]"
    using assms(7) w4 by (cases r) (auto dest: ClearWork_failed ClearWork_done)
  have ok: "dog_status (dName d) w5 = {(StateIdle, [])}" if "r = None"
  proof -
    from assms(7) that have "dogs w5 = set_work (dName d) StateIdle [] (dogs w4)"
      by (auto dest: ClearWork_done)
    moreover from known w4 have "\<exists>x \<in> set (dogs w4). dName x = dName d" by simp
    ultimately show ?thesis by (rule dog_status_set_work [rotated])
  qed
  have ko: "dogs w5 = dogs w3" if "r \<noteq> None"
    using assms(7) that w4 by (cases r) (auto dest: ClearWork_failed)
  have stranded: "dog_status (dName d) (dispatch_loop E (p # ps) w)
                    = {(StateWorking, ''plugin:'' @ pName p)}" if "r \<noteq> None"
  proof -
    from AssignWork_done [OF assms(5)]
    have "dogs w3 = set_work (dName d) StateWorking (''plugin:'' @ pName p) (dogs w2)"
      and "\<exists>x \<in> set (dogs w2). dName x = dName d"
      by auto
    then have "dog_status (dName d) w3 = {(StateWorking, ''plugin:'' @ pName p)}"
      by (rule dog_status_set_work [rotated])
    with ko [OF that] have "dog_status (dName d) w5 = {(StateWorking, ''plugin:'' @ pName p)}"
      by (simp add: dog_status_def)
    then show ?thesis unfolding loop by (rule dispatch_loop_keeps_working)
  qed
  from loop trace ok ko stranded show ?thesis by blast
qed

text \<open>
  The theorem on a pass with one plugin and one dog, where Start fails and the rollback
  succeeds.
\<close>

theorem start_failure_rolls_back_witness:
  "dog_status ''beta''
      (dispatch_loop rollback_env [plug ''B'' (cooldown [])] (kennel [idle_dog ''beta'']))
     = {(StateIdle, [])}
   \<and> calls (dispatch_loop rollback_env [plug ''B'' (cooldown [])] (kennel [idle_dog ''beta'']))
     = [CallGetIdleDog, CallAssignWork ''beta'' ''plugin:B'', CallStart ''beta'' ''plugin:B'',
        CallClearWork ''beta'']"
  using start_failure_rolls_back [of "plug ''B'' (cooldown [])"
          "\<lparr>gType = GateCooldown, gDuration = []\<rparr>" rollback_env
          "kennel [idle_dog ''beta'']" "kennel [idle_dog ''beta'']" "idle_dog ''beta''"
          "mark CallGetIdleDog (kennel [idle_dog ''beta''])"
          "snd (AssignWork rollback_env ''beta'' ''plugin:B'' (mark CallGetIdleDog (kennel [idle_dog ''beta''])))"
          StartError
          "snd (Start rollback_env ''beta'' ''plugin:B''
             (snd (AssignWork rollback_env ''beta'' ''plugin:B'' (mark CallGetIdleDog (kennel [idle_dog ''beta''])))))"
          None
          "snd (ClearWork rollback_env ''beta''
             (snd (Start rollback_env ''beta'' ''plugin:B''
               (snd (AssignWork rollback_env ''beta'' ''plugin:B'' (mark CallGetIdleDog (kennel [idle_dog ''beta''])))))))"
          "[]"]
  by (simp add: scene_defs rollback_env_def in_cooldown_def GetIdleDog_def AssignWork_def
        Start_def ClearWork_def set_work_def tick_def mark_def Let_def)

text \<open>
  C5 as stated fails: in one pass over three plugins and two idle dogs, Start fails after
  a successful AssignWork on both dogs, and both dogs end the cycle Working. For alpha the
  rollback's ClearWork fails, which is only logged; beta is rolled back to Idle and then
  claimed again by the third plugin.
\<close>

theorem rollback_can_leave_dog_working:
  "calls (dispatchPlugins rollback_env town (kennel [idle_dog ''alpha'', idle_dog ''beta'']))
       = [CallDiscoverAll [''gastown''],
          CallGetIdleDog, CallAssignWork ''alpha'' ''plugin:A'', CallStart ''alpha'' ''plugin:A'',
          CallClearWork ''alpha'',
          CallGetIdleDog, CallAssignWork ''beta'' ''plugin:B'', CallStart ''beta'' ''plugin:B'',
          CallClearWork ''beta'',
          CallGetIdleDog, CallAssignWork ''beta'' ''plugin:C'', CallStart ''beta'' ''plugin:C'',
          CallSend (task_message rollback_env 12 ''beta'' (plug ''C'' (cooldown [])))]
   \<and> dogs (dispatchPlugins rollback_env town (kennel [idle_dog ''alpha'', idle_dog ''beta'']))
       = [busy_dog ''alpha'' ''plugin:A'', busy_dog ''beta'' ''plugin:C'']
   \<and> sessions (dispatchPlugins rollback_env town (kennel [idle_dog ''alpha'', idle_dog ''beta'']))
       = [(''beta'', ''plugin:C'')]"
  by (simp add: handler_defs scene_defs rollback_env_def)

text \<open>
  C7: when the session of a worker was started and the Send of the task message
  fails, nothing is rolled back: the calls made after AssignWork are the Start and the
  Send only (no ClearWork), the registry is as AssignWork left it, so the worker is Working
  with the plugin's work description, the started session stays, and the pass goes on with
  the next item; at the end of the pass the worker is still Working with that description.
\<close>

theorem send_failure_is_not_rolled_back:
  assumes "pGate p = Some g" and "gType g = GateCooldown"
      and "in_cooldown E p g w = (False, w1)"
      and "GetIdleDog E w1 = (Inr (Some d), w2)"
      and "AssignWork E (dName d) (''plugin:'' @ pName p) w2 = (None, w3)"
      and "Start E (dName d) (''plugin:'' @ pName p) w3 = (None, w4)"
      and "Send E (task_message E (tick w4) (dName d) p) w4 = (Some e, w5)"
  shows "dispatch_loop E (p # ps) w = dispatch_loop E ps w5
       \<and> calls w5 = calls w3 @ [CallStart (dName d) (''plugin:'' @ pName p),
                                 CallSend (task_message E (tick w4) (dName d) p)]
       \<and> dogs w5 = dogs w3
       \<and> dog_status (dName d) w5 = {(StateWorking, ''plugin:'' @ pName p)}
       \<and> sessions w5 = sessions w3 @ [(dName d, ''plugin:'' @ pName p)]
       \<and> dog_status (dName d) (dispatch_loop E (p # ps) w)
           = {(StateWorking, ''plugin:'' @ pName p)}"
proof -
  have loop: "dispatch_loop E (p # ps) w = dispatch_loop E ps w5"
    using assms by (simp add: dispatch_item_def dispatch_to_dog_def)
  have w4: "w4 = (mark (CallStart (dName d) (''plugin:'' @ pName p)) w3)
                   \<lparr>sessions := sessions w3 @ [(dName d, ''plugin:'' @ pName p)]\<rparr>"
    using assms(6) by (rule Start_done)
  have w5: "w5 = mark (CallSend (task_message E (tick w4) (dName d) p)) w4"
    using assms(7) by (rule Send_failed)
  from AssignWork_done [OF assms(5)]
  have w3: "dogs w3 = set_work (dName d) StateWorking (''plugin:'' @ pName p) (dogs w2)"
    and known: "\<exists>x \<in> set (dogs w2). dName x = dName d"
    by auto
  have "dogs w5 = set_work (dName d) StateWorking (''plugin:'' @ pName p) (dogs w2)"
    by (simp add: w5 w4 w3)
  with known have st: "dog_status (dName d) w5 = {(StateWorking, ''plugin:'' @ pName p)}"
    by (rule dog_status_set_work)
  from st have "dog_status (dName d) (dispatch_loop E (p # ps) w)
                  = {(StateWorking, ''plugin:'' @ pName p)}"
    unfolding loop by (rule dispatch_loop_keeps_working)
  with loop st show ?thesis by (simp add: w5 w4)
qed

text \<open>
  The theorem on a pass with one plugin and one idle dog, where only Send fails.
\<close>

theorem send_failure_is_not_rolled_back_witness:
  "dog_status ''alpha''
      (dispatch_loop send_fault_env [plug ''A'' (cooldown [])] (kennel [idle_dog ''alpha'']))
     = {(StateWorking, ''plugin:A'')}
   \<and> sessions (dispatch_loop send_fault_env [plug ''A'' (cooldown [])] (kennel [idle_dog ''alpha'']))
     = [(''alpha'', ''plugin:A'')]
   \<and> calls (dispatch_loop send_fault_env [plug ''A'' (cooldown [])] (kennel [idle_dog ''alpha'']))
     = [CallGetIdleDog, CallAssignWork ''alpha'' ''plugin:A'', CallStart ''alpha'' ''plugin:A'',
        CallSend (task_message send_fault_env 3 ''alpha'' (plug ''A'' (cooldown [])))]
   \<and> active (mailboxes
        (dispatch_loop send_fault_env [plug ''A'' (cooldown [])] (kennel [idle_dog ''alpha'']))
        ''dog/alpha'') = []"
  using send_failure_is_not_rolled_back [of "plug ''A'' (cooldown [])"
          "\<lparr>gType = GateCooldown, gDuration = []\<rparr>" send_fault_env
          "kennel [idle_dog ''alpha'']" "kennel [idle_dog ''alpha'']" "idle_dog ''alpha''"
          "mark CallGetIdleDog (kennel [idle_dog ''alpha''])"
          "snd (AssignWork send_fault_env ''alpha'' ''plugin:A'' (mark CallGetIdleDog (kennel [idle_dog ''alpha''])))"
          "snd (Start send_fault_env ''alpha'' ''plugin:A''
             (snd (AssignWork send_fault_env ''alpha'' ''plugin:A'' (mark CallGetIdleDog (kennel [idle_dog ''alpha''])))))"
          StorageError
          "snd (Send send_fault_env (task_message send_fault_env 3 ''alpha'' (plug ''A'' (cooldown [])))
             (snd (Start send_fault_env ''alpha'' ''plugin:A''
               (snd (AssignWork send_fault_env ''alpha'' ''plugin:A'' (mark CallGetIdleDog (kennel [idle_dog ''alpha''])))))))"
          "[]"]
  by (simp add: scene_defs send_fault_env_def in_cooldown_def GetIdleDog_def AssignWork_def
        Start_def Send_def task_message_def set_work_def tick_def mark_def Let_def)

section \<open>Claims about the stuck-repair pass and the cycle\<close>

text \<open>
  C6 (as amended): in a stuck-repair pass, for a listed worker whose state is Working:
  if the liveness probe answers false without error, ClearWork is called on that worker
  right after the probe; when that call succeeds the worker is Idle afterwards, when it
  fails the registry is left unchanged (the failure is only logged); either way the pass
  goes on with the other workers. If the probe answers an error, no ClearWork is called,
  the registry is unchanged and the pass goes on with the other workers. When the listed
  workers have distinct names, ClearWork is called on a worker at most once in the pass.
\<close>

theorem stuck_dog_is_cleared:
  assumes "dState dg = StateWorking"
  shows "(IsRunning E (dName dg) w = (Inr False, w1) \<and> ClearWork E (dName dg) w1 = (r, w2) \<longrightarrow>
            cleanup_loop E (dg # dgs) w = cleanup_loop E dgs w2
          \<and> calls w2 = calls w @ [CallIsRunning (dName dg), CallClearWork (dName dg)]
          \<and> (r = None \<and> dName dg \<in> dName ` set (dogs w) \<longrightarrow>
                dog_status (dName dg) w2 = {(StateIdle, [])})
          \<and> (r \<noteq> None \<longrightarrow> dogs w2 = dogs w))
       \<and> (IsRunning E (dName dg) w = (Inl e, w1) \<longrightarrow>
            cleanup_loop E (dg # dgs) w = cleanup_loop E dgs w1
          \<and> dogs w1 = dogs w \<and> calls w1 = calls w @ [CallIsRunning (dName dg)])
       \<and> (distinct (map dName (dg # dgs)) \<longrightarrow>
            count_list (new_calls w (cleanup_loop E (dg # dgs) w)) (CallClearWork (dName dg)) \<le> 1)"
proof (intro conjI impI)
  assume h: "IsRunning E (dName dg) w = (Inr False, w1) \<and> ClearWork E (dName dg) w1 = (r, w2)"
  then have w1: "w1 = mark (CallIsRunning (dName dg)) w" by (auto dest: IsRunning_world)
  from h assms show "cleanup_loop E (dg # dgs) w = cleanup_loop E dgs w2"
    by (simp add: cleanup_dog_def)
  from h w1 show "calls w2 = calls w @ [CallIsRunning (dName dg), CallClearWork (dName dg)]"
    by (cases r) (auto dest: ClearWork_done ClearWork_failed)
  {
    assume "r = None \<and> dName dg \<in> dName ` set (dogs w)"
    with h w1 have "dogs w2 = set_work (dName dg) StateIdle [] (dogs w1)"
      and "\<exists>x \<in> set (dogs w1). dName x = dName dg"
      by (auto dest: ClearWork_done)
    then show "dog_status (dName dg) w2 = {(StateIdle, [])}"
      by (rule dog_status_set_work [rotated])
  }
  {
    assume "r \<noteq> None"
    with h w1 show "dogs w2 = dogs w" by (cases r) (auto dest: ClearWork_failed)
  }
next
  assume h: "IsRunning E (dName dg) w = (Inl e, w1)"
  then have w1: "w1 = mark (CallIsRunning (dName dg)) w" by (rule IsRunning_world)
  from h assms show "cleanup_loop E (dg # dgs) w = cleanup_loop E dgs w1"
    by (simp add: cleanup_dog_def)
  from w1 show "dogs w1 = dogs w" by simp
  from w1 show "calls w1 = calls w @ [CallIsRunning (dName dg)]" by simp
next
  assume "distinct (map dName (dg # dgs))"
  from cleanup_loop_calls [OF this, of E w "dName dg"]
  show "count_list (new_calls w (cleanup_loop E (dg # dgs) w)) (CallClearWork (dName dg)) \<le> 1"
    by (auto simp: new_calls_def)
qed


text \<open>
  The theorem on a kennel with one working dog, whose session is dead in one environment
  and whose probe fails in the other.
\<close>

theorem stuck_dog_is_cleared_witness:
  "dState (busy_dog ''alpha'' ''plugin:A'') = StateWorking
   \<and> dog_status ''alpha'' (cleanup_loop dead_session_env [busy_dog ''alpha'' ''plugin:A'']
        (kennel [busy_dog ''alpha'' ''plugin:A''])) = {(StateIdle, [])}
   \<and> calls (cleanup_loop dead_session_env [busy_dog ''alpha'' ''plugin:A'']
        (kennel [busy_dog ''alpha'' ''plugin:A''])) = [CallIsRunning ''alpha'', CallClearWork ''alpha'']
   \<and> count_list (new_calls (kennel [busy_dog ''alpha'' ''plugin:A''])
        (cleanup_loop dead_session_env [busy_dog ''alpha'' ''plugin:A'']
          (kennel [busy_dog ''alpha'' ''plugin:A'']))) (CallClearWork ''alpha'') = 1
   \<and> cleanup_loop probe_error_env [busy_dog ''alpha'' ''plugin:A'']
        (kennel [busy_dog ''alpha'' ''plugin:A''])
       = mark (CallIsRunning ''alpha'') (kennel [busy_dog ''alpha'' ''plugin:A''])"
  using stuck_dog_is_cleared [of "busy_dog ''alpha'' ''plugin:A''" dead_session_env
          "kennel [busy_dog ''alpha'' ''plugin:A'']"
          "mark (CallIsRunning ''alpha'') (kennel [busy_dog ''alpha'' ''plugin:A''])"
          None
          "snd (ClearWork dead_session_env ''alpha''
             (mark (CallIsRunning ''alpha'') (kennel [busy_dog ''alpha'' ''plugin:A''])))"
          "[]" StorageError]
        stuck_dog_is_cleared [of "busy_dog ''alpha'' ''plugin:A''" probe_error_env
          "kennel [busy_dog ''alpha'' ''plugin:A'']"
          "mark (CallIsRunning ''alpha'') (kennel [busy_dog ''alpha'' ''plugin:A''])"
          None
          "kennel [busy_dog ''alpha'' ''plugin:A'']"
          "[]" StorageError]
  by (simp add: scene_defs dead_session_env_def probe_error_env_def IsRunning_def
        ClearWork_def set_work_def tick_def mark_def new_calls_def Let_def)

text \<open>
  C6 as stated fails: the dog is Working, the probe answers false without error and
  ClearWork is called, but ClearWork fails; the failure is only logged and the dog is
  still Working after the pass.
\<close>

theorem failed_clear_leaves_dog_working:
  "isRunning stuck_clear_env 1 ''alpha'' = Inr False
   \<and> calls (cleanupStuckDogs stuck_clear_env (kennel [busy_dog ''alpha'' ''plugin:A'']))
       = [CallList, CallIsRunning ''alpha'', CallClearWork ''alpha'']
   \<and> dogs (cleanupStuckDogs stuck_clear_env (kennel [busy_dog ''alpha'' ''plugin:A'']))
       = [busy_dog ''alpha'' ''plugin:A'']"
  by (simp add: handler_defs scene_defs stuck_clear_env_def dead_session_env_def)

text \<open>
  C10: if loading the rigs configuration fails at the start of a cycle, the cycle
  changes nothing: the world after \<^verbatim>\<open>handleDogs\<close> is the world before it, so no worker
  state, session, mailbox or run record is touched and no collaborator is called.
\<close>

theorem failed_config_load_is_noop:
  assumes "loadRigsConfig E (tick w) = Inl e"
  shows "handleDogs E w = w"
  using assms by (simp add: handleDogs_def)


text \<open>
  The theorem on a kennel whose one working dog has a dead session: with the
  configuration loaded, the stuck-repair pass would have cleared it.
\<close>

theorem failed_config_load_is_noop_witness:
  "loadRigsConfig broken_config_env (tick (kennel [busy_dog ''alpha'' ''plugin:A''])) = Inl StorageError
   \<and> handleDogs broken_config_env (kennel [busy_dog ''alpha'' ''plugin:A''])
       = kennel [busy_dog ''alpha'' ''plugin:A'']
   \<and> dogs (handleDogs dead_session_env (kennel [busy_dog ''alpha'' ''plugin:A'']))
       = [idle_dog ''alpha'']"
  using failed_config_load_is_noop [of broken_config_env
          "kennel [busy_dog ''alpha'' ''plugin:A'']" StorageError]
  by (simp add: handler_defs scene_defs broken_config_env_def dead_session_env_def)

section \<open>Claims about the pending-spawn tracker\<close>

text \<open>
  C8: scanning a mailbox whose only active message has the subject
  \<^verbatim>\<open>POLECAT_STARTED gastown/Toast\<close> and the body
  \<^verbatim>\<open>Session: gt-gastown-polecat-Toast\<close>, newline, \<^verbatim>\<open>Issue: gt-abc123\<close> yields exactly
  one pending spawn, with rig \<^verbatim>\<open>gastown\<close>, worker \<^verbatim>\<open>Toast\<close>, that session, that issue,
  and a reference to the mailbox and to the id of the message. An active message whose
  subject does not start as a started-notification, or has no slash, gives no pending
  spawn, and a scan of a mailbox that holds it is not an error: it yields the pending
  spawns of the other messages.
\<close>

theorem started_mail_yields_one_spawn:
  assumes "mSubject m = ''POLECAT_STARTED gastown/Toast''"
      and "mBody m = ''Session: gt-gastown-polecat-Toast'' @ [CHR 0x0A] @ ''Issue: gt-abc123''"
      and "active (st ref) = [m]"
      and "strip_prefix ''POLECAT_STARTED '' (mSubject x) = None \<or> CHR ''/'' \<notin> set (mSubject x)"
      and "active (st2 ref2) = xs @ x # ys"
  shows "checkMailboxForSpawns None ref st
           = Inr [\<lparr>psRig = ''gastown'', psPolecat = ''Toast'',
                   psSession = ''gt-gastown-polecat-Toast'', psIssue = ''gt-abc123'',
                   psSpawnedAt = mTimestamp m, psMailID = mID m, psMailbox = Some ref\<rparr>]
       \<and> parse_spawn ref2 x = None
       \<and> checkMailboxForSpawns None ref2 st2 = Inr (List.map_filter (parse_spawn ref2) (xs @ ys))"
proof -
  have "parse_spawn ref m
          = Some \<lparr>psRig = ''gastown'', psPolecat = ''Toast'',
                  psSession = ''gt-gastown-polecat-Toast'', psIssue = ''gt-abc123'',
                  psSpawnedAt = mTimestamp m, psMailID = mID m, psMailbox = Some ref\<rparr>"
    by (simp add: parse_spawn_def assms(1,2) split_slash_def field_value_def List.map_filter_def)
  then have one: "checkMailboxForSpawns None ref st
           = Inr [\<lparr>psRig = ''gastown'', psPolecat = ''Toast'',
                   psSession = ''gt-gastown-polecat-Toast'', psIssue = ''gt-abc123'',
                   psSpawnedAt = mTimestamp m, psMailID = mID m, psMailbox = Some ref\<rparr>]"
    by (simp add: checkMailboxForSpawns_def assms(3) List.map_filter_def)
  have none: "parse_spawn ref2 x = None"
    using assms(4) by (rule unmatched_subject_no_spawn)
  then have "checkMailboxForSpawns None ref2 st2 = Inr (List.map_filter (parse_spawn ref2) (xs @ ys))"
    by (simp add: checkMailboxForSpawns_def assms(5) map_filter_drop)
  with one none show ?thesis by simp
qed

text \<open>
  The theorem on the mailbox of the basic scenario, and on the same mailbox with a
  started-notification that lacks the slash.
\<close>

theorem started_mail_yields_one_spawn_witness:
  "checkMailboxForSpawns None ''inbox'' (box_of [started_mail ''mail-001'' ''Toast'' ''gt-abc123'' 940])
     = Inr [spawn_of ''mail-001'' ''Toast'' ''gt-abc123'' 940]
   \<and> checkMailboxForSpawns None ''inbox''
        (box_of [started_mail ''mail-001'' ''Toast'' ''gt-abc123'' 940, noslash_mail])
     = Inr [spawn_of ''mail-001'' ''Toast'' ''gt-abc123'' 940]"
  using started_mail_yields_one_spawn [of "started_mail ''mail-001'' ''Toast'' ''gt-abc123'' 940"
          "box_of [started_mail ''mail-001'' ''Toast'' ''gt-abc123'' 940]" "''inbox''"
          noslash_mail
          "box_of [started_mail ''mail-001'' ''Toast'' ''gt-abc123'' 940, noslash_mail]" "''inbox''"
          "[started_mail ''mail-001'' ''Toast'' ''gt-abc123'' 940]" "[]"]
  by (simp add: started_mail_def noslash_mail_def box_of_def spawn_of_def parse_spawn_def
        split_slash_def field_value_def List.map_filter_def)

text \<open>
  C9: pruning a list of pending spawns with a maximal age archives exactly the
  entries spawned before now minus the maximal age. When every such entry has a mailbox,
  the result is the number of those entries; in every mailbox the messages that remain
  active are those whose id is not the id of a stale entry backed by that mailbox, and
  the others have moved to the archive. For the entries that a scan of a mailbox with
  distinct message ids returned, a fresh scan after the pruning returns exactly the
  younger entries. A stale entry whose mailbox reference is nil makes the pruning fail with
  NilMailboxError.
\<close>

theorem prune_archives_exactly_stale:
  "((\<forall>p \<in> set pending. stale (now - maxAge) p \<longrightarrow> psMailbox p \<noteq> None) \<longrightarrow>
       fst (pruneStalePendingFromList now pending maxAge st)
         = Inr (length (filter (stale (now - maxAge)) pending))
     \<and> active (snd (pruneStalePendingFromList now pending maxAge st) ref)
         = filter (\<lambda>m. mID m \<notin> set (stale_ids (now - maxAge) pending ref)) (active (st ref))
     \<and> set (archived (snd (pruneStalePendingFromList now pending maxAge st) ref))
         = set (archived (st ref))
           \<union> {m \<in> set (active (st ref)). mID m \<in> set (stale_ids (now - maxAge) pending ref)})
   \<and> (checkMailboxForSpawns None ref st = Inr pending \<and> distinct (map mID (active (st ref))) \<longrightarrow>
       checkMailboxForSpawns None ref (snd (pruneStalePendingFromList now pending maxAge st))
         = Inr (filter (\<lambda>p. \<not> stale (now - maxAge) p) pending))
   \<and> ((\<exists>p \<in> set pending. stale (now - maxAge) p \<and> psMailbox p = None) \<longrightarrow>
       fst (pruneStalePendingFromList now pending maxAge st) = Inl NilMailboxError)"
proof (intro conjI impI)
  assume backed: "\<forall>p \<in> set pending. stale (now - maxAge) p \<longrightarrow> psMailbox p \<noteq> None"
  show "fst (pruneStalePendingFromList now pending maxAge st)
          = Inr (length (filter (stale (now - maxAge)) pending))"
    using prune_loop_count [OF backed, of 0 st] by (simp add: pruneStalePendingFromList_def)
  show "active (snd (pruneStalePendingFromList now pending maxAge st) ref)
          = filter (\<lambda>m. mID m \<notin> set (stale_ids (now - maxAge) pending ref)) (active (st ref))"
    unfolding pruneStalePendingFromList_def by (rule prune_loop_active [OF backed])
  show "set (archived (snd (pruneStalePendingFromList now pending maxAge st) ref))
          = set (archived (st ref))
            \<union> {m \<in> set (active (st ref)). mID m \<in> set (stale_ids (now - maxAge) pending ref)}"
    unfolding pruneStalePendingFromList_def by (rule prune_loop_archived [OF backed])
next
  assume "checkMailboxForSpawns None ref st = Inr pending \<and> distinct (map mID (active (st ref)))"
  then show "checkMailboxForSpawns None ref (snd (pruneStalePendingFromList now pending maxAge st))
          = Inr (filter (\<lambda>p. \<not> stale (now - maxAge) p) pending)"
    unfolding pruneStalePendingFromList_def by (auto intro: rescan_after_prune)
next
  assume "\<exists>p \<in> set pending. stale (now - maxAge) p \<and> psMailbox p = None"
  then show "fst (pruneStalePendingFromList now pending maxAge st) = Inl NilMailboxError"
    unfolding pruneStalePendingFromList_def by (rule prune_loop_nil)
qed

text \<open>
  The theorem on the staleness scenario: at time 1000, of two pending spawns aged ten
  minutes and one minute, pruning with a maximal age of five minutes archives the older
  one and answers 1; and on a stale entry without a mailbox.
\<close>

theorem prune_archives_exactly_stale_witness:
  "checkMailboxForSpawns None ''inbox''
      (box_of [started_mail ''mail-old'' ''OldToast'' ''gt-old'' 400,
               started_mail ''mail-new'' ''NewToast'' ''gt-new'' 940])
     = Inr [spawn_of ''mail-old'' ''OldToast'' ''gt-old'' 400,
            spawn_of ''mail-new'' ''NewToast'' ''gt-new'' 940]
   \<and> fst (pruneStalePendingFromList 1000
        [spawn_of ''mail-old'' ''OldToast'' ''gt-old'' 400,
         spawn_of ''mail-new'' ''NewToast'' ''gt-new'' 940] 300
        (box_of [started_mail ''mail-old'' ''OldToast'' ''gt-old'' 400,
                 started_mail ''mail-new'' ''NewToast'' ''gt-new'' 940])) = Inr 1
   \<and> active (snd (pruneStalePendingFromList 1000
        [spawn_of ''mail-old'' ''OldToast'' ''gt-old'' 400,
         spawn_of ''mail-new'' ''NewToast'' ''gt-new'' 940] 300
        (box_of [started_mail ''mail-old'' ''OldToast'' ''gt-old'' 400,
                 started_mail ''mail-new'' ''NewToast'' ''gt-new'' 940])) ''inbox'')
     = [started_mail ''mail-new'' ''NewToast'' ''gt-new'' 940]
   \<and> set (archived (snd (pruneStalePendingFromList 1000
        [spawn_of ''mail-old'' ''OldToast'' ''gt-old'' 400,
         spawn_of ''mail-new'' ''NewToast'' ''gt-new'' 940] 300
        (box_of [started_mail ''mail-old'' ''OldToast'' ''gt-old'' 400,
                 started_mail ''mail-new'' ''NewToast'' ''gt-new'' 940])) ''inbox''))
     = {started_mail ''mail-old'' ''OldToast'' ''gt-old'' 400}
   \<and> checkMailboxForSpawns None ''inbox'' (snd (pruneStalePendingFromList 1000
        [spawn_of ''mail-old'' ''OldToast'' ''gt-old'' 400,
         spawn_of ''mail-new'' ''NewToast'' ''gt-new'' 940] 300
        (box_of [started_mail ''mail-old'' ''OldToast'' ''gt-old'' 400,
                 started_mail ''mail-new'' ''NewToast'' ''gt-new'' 940])))
     = Inr [spawn_of ''mail-new'' ''NewToast'' ''gt-new'' 940]
   \<and> fst (pruneStalePendingFromList 1000 [orphan_spawn] 300 (box_of [])) = Inl NilMailboxError"
  using prune_archives_exactly_stale [of
          "[spawn_of ''mail-old'' ''OldToast'' ''gt-old'' 400,
            spawn_of ''mail-new'' ''NewToast'' ''gt-new'' 940]" 1000 300
          "box_of [started_mail ''mail-old'' ''OldToast'' ''gt-old'' 400,
                   started_mail ''mail-new'' ''NewToast'' ''gt-new'' 940]" "''inbox''"]
        prune_archives_exactly_stale [of "[orphan_spawn]" 1000 300 "box_of []" "''inbox''"]
  by (simp add: started_mail_def box_of_def spawn_of_def orphan_spawn_def emptybox_def
        checkMailboxForSpawns_def parse_spawn_def split_slash_def field_value_def
        List.map_filter_def stale_def stale_ids_def pruneStalePendingFromList_def
        ArchiveByID_def)

end
